theory Spec2Isabelle
  imports Complex_Main "HOL-Library.Multiset"
begin

text \<open>
  A shallow embedding of \<^verbatim>\<open>functions/src/index.ts\<close>: the class
  \<^verbatim>\<open>HanoiCloudSolver\<close> with its methods \<^verbatim>\<open>generateSolution\<close>,
  \<^verbatim>\<open>solveHanoi\<close>, \<^verbatim>\<open>validateSolution\<close> and \<^verbatim>\<open>isValidMove\<close>.

  Conventions of the embedding.
  \<^item> A TypeScript \<^verbatim>\<open>number\<close> is a \<^typ>\<open>real\<close>. Disk counts, disk sizes and rod
    indices keep that type, so inputs such as \<open>1.5\<close> are inputs of the model.
    Every number the solver computes from a disk count in \<open>[1, 8]\<close> (repeated
    subtraction of 1) is exact in binary floating point. NaN and the infinities are
    values of \<open>jsnum\<close>, over which the last section of definitions repeats the
    solver; rounding is not represented.
  \<^item> An array is a list; \<^verbatim>\<open>push\<close> appends at the end and \<^verbatim>\<open>pop\<close>
    removes the last element, so the top of a rod is the last element of its list.
    The stacks of a rod state are distinct arrays, as \<^verbatim>\<open>generateSolution\<close>
    allocates them.
  \<^item> The two arrays that \<^verbatim>\<open>solveHanoi\<close> mutates in place, \<^verbatim>\<open>rods\<close> and
    \<^verbatim>\<open>moves\<close>, are passed in and returned as a pair.
  \<^item> An exception is a value \<open>Inl e\<close> of the result.
  \<^item> The field names \<^verbatim>\<open>id\<close>, \<^verbatim>\<open>from\<close> and \<^verbatim>\<open>to\<close> of
    \<^verbatim>\<open>HanoiMove\<close> carry the suffix \<open>_m\<close>.
\<close>

section \<open>Data model\<close>

record HanoiMove =
  id_m :: string
  from_m :: string
  to_m :: string
  disk :: real
  description :: string

record HanoiSolution =
  numberOfDisks :: real
  moves :: "HanoiMove list"
  totalMoves :: nat
  source :: string
  isValid :: bool

text \<open>
  \<open>Error msg\<close> is \<^verbatim>\<open>new Error(msg)\<close>. \<open>TypeError\<close> is what JavaScript throws on
  reading \<^verbatim>\<open>.length\<close> of, or calling \<^verbatim>\<open>.push\<close> on, \<^verbatim>\<open>undefined\<close>; it arises
  only when \<^verbatim>\<open>solveHanoi\<close> is given fewer than three rods or a fractional index.
\<close>

datatype error = Error string | TypeError

type_synonym rods = "real list list"
type_synonym sim = "rods \<times> HanoiMove list"

text \<open>The error of line 61, under the name the specification gives it.\<close>

definition InvalidDiskCount :: error where
  "InvalidDiskCount = Error ''Number of disks must be between 1 and 8.''"

section \<open>Numbers inside template literals\<close>

text \<open>
  \<open>show_nat\<close> prints a natural number in decimal; it renders
  \<^verbatim>\<open>moves.length + 1\<close>. \<open>show_number\<close> renders a disk size: the decimal digits of
  an integer value, and for a fractional value its decimal expansion, cut after 17
  fractional digits. No property below depends on the rendering of fractional values.
\<close>

definition digit :: "nat \<Rightarrow> char" where
  "digit d = ''0123456789'' ! d"

fun show_nat :: "nat \<Rightarrow> string" where
  "show_nat n = (if n < 10 then [digit n] else show_nat (n div 10) @ [digit (n mod 10)])"

fun frac_digits :: "nat \<Rightarrow> real \<Rightarrow> string" where
  "frac_digits k r =
     (if k = 0 \<or> r = 0 then []
      else digit (nat \<lfloor>10 * r\<rfloor>) # frac_digits (k - 1) (frac (10 * r)))"

declare show_nat.simps [simp del] frac_digits.simps [simp del]

definition show_abs :: "real \<Rightarrow> string" where
  "show_abs x = show_nat (nat \<lfloor>x\<rfloor>) @
     (if frac x = 0 then [] else ''.'' @ frac_digits 17 (frac x))"

definition show_number :: "real \<Rightarrow> string" where
  "show_number x = (if x < 0 then ''-'' @ show_abs (- x) else show_abs x)"

section \<open>The solver\<close>

definition rodNames :: "string list" where
  "rodNames = [''A'', ''B'', ''C'']"

text \<open>
  \<^verbatim>\<open>rods[i]\<close>: the element when \<open>i\<close> is an integer index inside the array,
  \<^verbatim>\<open>undefined\<close> (\<open>None\<close>) otherwise.
\<close>

definition rodAt :: "rods \<Rightarrow> real \<Rightarrow> real list option" where
  "rodAt rods i =
     (if real_of_int \<lfloor>i\<rfloor> = i \<and> 0 \<le> i \<and> i < real (length rods)
      then Some (rods ! nat \<lfloor>i\<rfloor>) else None)"

text \<open>
  Lines 112 to 124 and lines 133 to 145 are the same statements: test the source rod,
  pop its top disk, push it on the destination rod, append the move record.
  \<open>moveTopDisk\<close> is that block. \<open>Inr None\<close> is the early \<^verbatim>\<open>return\<close> of the
  comment \<^verbatim>\<open>// No disk to move\<close>; \<open>Inr (Some s')\<close> is the state after the move.
  The test \<^verbatim>\<open>disk === undefined\<close> of lines 114 and 135 cannot succeed after the
  length test and has no branch here. Where a move record is built, the indices have
  passed the range checks of \<open>solveHanoi\<close> and \<open>rodAt\<close>, so they are 0, 1 or 2.
\<close>

definition moveTopDisk :: "real \<Rightarrow> real \<Rightarrow> sim \<Rightarrow> error + sim option" where
  "moveTopDisk f t s =
     (case s of (rods, ms) \<Rightarrow>
       (case rodAt rods f of
          None \<Rightarrow> Inl TypeError
        | Some src \<Rightarrow>
            if length src = 0 then Inr None
            else
              let d = last src;
                  rods1 = rods[nat \<lfloor>f\<rfloor> := butlast src]
              in (case rodAt rods1 t of
                    None \<Rightarrow> Inl TypeError
                  | Some dst \<Rightarrow>
                      Inr (Some (rods1[nat \<lfloor>t\<rfloor> := dst @ [d]],
                        ms @ [\<lparr> id_m = ''move-'' @ show_nat (length ms + 1),
                                   from_m = rodNames ! nat \<lfloor>f\<rfloor>,
                                   to_m = rodNames ! nat \<lfloor>t\<rfloor>,
                                   disk = d,
                                   description =
                                     ''Take disk '' @ show_number d @ '' from rod '' @
                                     rodNames ! nat \<lfloor>f\<rfloor> @ '' to rod '' @
                                     rodNames ! nat \<lfloor>t\<rfloor> \<rparr>])))))"

lemma ceiling_pred_less: "0 < (n::real) \<Longrightarrow> nat \<lceil>n - 1\<rceil> < nat \<lceil>n\<rceil>"
  by simp

lemma floor_pred_less: "1 \<le> (i::real) \<Longrightarrow> nat \<lfloor>i - 1\<rfloor> < nat \<lfloor>i\<rfloor>"
  by simp

text \<open>
  \<^verbatim>\<open>solveHanoi(n, from, to, auxiliary, rods, moves)\<close>, lines 94 to 149. Each
  recursive call has \<open>n - 1\<close> for \<open>n\<close> and is made only when \<open>0 < n\<close>, so
  \<open>\<lceil>n\<rceil>\<close> decreases.
\<close>

function solveHanoi :: "real \<Rightarrow> real \<Rightarrow> real \<Rightarrow> real \<Rightarrow> sim \<Rightarrow> error + sim" where
  "solveHanoi n f t a s =
     (if n \<le> 0 then Inr s
      else if f < 0 \<or> f > 2 \<or> t < 0 \<or> t > 2 \<or> a < 0 \<or> a > 2 then Inr s
      else if f = t \<or> f = a \<or> t = a then Inr s
      else if n = 1 then
        (case moveTopDisk f t s of
           Inl e \<Rightarrow> Inl e
         | Inr None \<Rightarrow> Inr s
         | Inr (Some s') \<Rightarrow> Inr s')
      else
        (case solveHanoi (n - 1) f a t s of
           Inl e \<Rightarrow> Inl e
         | Inr s1 \<Rightarrow>
             (case moveTopDisk f t s1 of
                Inl e \<Rightarrow> Inl e
              | Inr None \<Rightarrow> Inr s1
              | Inr (Some s2) \<Rightarrow> solveHanoi (n - 1) a t f s2)))"
  by pat_completeness auto
termination
  by (relation "measure (\<lambda>(n, f, t, a, s). nat \<lceil>n\<rceil>)") (auto simp: ceiling_pred_less)

declare solveHanoi.simps [simp del]

text \<open>
  The loop of lines 68 to 70,
  \<^verbatim>\<open>for (let i = numberOfDisks; i >= 1; i--) simulationRods[0].push(i)\<close>.
\<close>

function pushDisks :: "real \<Rightarrow> rods \<Rightarrow> rods" where
  "pushDisks i rods =
     (if i \<ge> 1 then pushDisks (i - 1) (rods[0 := rods ! 0 @ [i]]) else rods)"
  by pat_completeness auto
termination
  by (relation "measure (\<lambda>(i, rods). nat \<lfloor>i\<rfloor>)") (auto simp: floor_pred_less)

declare pushDisks.simps [simp del]

section \<open>The validator\<close>

definition validRods :: "string list" where
  "validRods = [''A'', ''B'', ''C'']"

definition isValidMove :: "HanoiMove \<Rightarrow> bool" where
  "isValidMove move \<longleftrightarrow>
     List.member validRods (from_m move) \<and> List.member validRods (to_m move) \<and>
     from_m move \<noteq> to_m move \<and> disk move > 0"

text \<open>\<^verbatim>\<open>Math.pow(2, numberOfDisks)\<close> is \<open>2 powr numberOfDisks\<close>.\<close>

definition validateSolution :: "HanoiMove list \<Rightarrow> real \<Rightarrow> bool" where
  "validateSolution ms n =
     (let expectedMoves = 2 powr n - 1;
          hasCorrectMoveCount = (real (length ms) = expectedMoves);
          allMovesValid = list_all isValidMove ms
      in hasCorrectMoveCount \<and> allMovesValid)"

section \<open>The entry point\<close>

definition generateSolution :: "real \<Rightarrow> error + HanoiSolution" where
  "generateSolution n =
     (if n < 1 \<or> n > 8 then Inl InvalidDiskCount
      else
        let simulationRods = pushDisks n [[], [], []]
        in (case solveHanoi n 0 2 1 (simulationRods, []) of
              Inl e \<Rightarrow> Inl e
            | Inr (rods', ms) \<Rightarrow>
                Inr \<lparr> numberOfDisks = n,
                      moves = ms,
                      totalMoves = length ms,
                      source = ''cloud_generated'',
                      isValid = validateSolution ms n \<rparr>))"

section \<open>The states of the simulation\<close>

text \<open>
  \<open>simStates n f t a s\<close> lists the rod state after each move that the call
  \<open>solveHanoi n f t a s\<close> carries out, in order. It follows the recursion of
  \<open>solveHanoi\<close> branch by branch and records the rods wherever \<open>solveHanoi\<close>
  has moved a disk. \<open>simulationTrace n\<close> is the loaded initial state of
  \<^verbatim>\<open>generateSolution(n)\<close> followed by the states of its call of \<open>solveHanoi\<close>.
\<close>

function simStates :: "real \<Rightarrow> real \<Rightarrow> real \<Rightarrow> real \<Rightarrow> sim \<Rightarrow> rods list" where
  "simStates n f t a s =
     (if n \<le> 0 then []
      else if f < 0 \<or> f > 2 \<or> t < 0 \<or> t > 2 \<or> a < 0 \<or> a > 2 then []
      else if f = t \<or> f = a \<or> t = a then []
      else if n = 1 then
        (case moveTopDisk f t s of
           Inr (Some s') \<Rightarrow> [fst s']
         | _ \<Rightarrow> [])
      else
        simStates (n - 1) f a t s @
        (case solveHanoi (n - 1) f a t s of
           Inl e \<Rightarrow> []
         | Inr s1 \<Rightarrow>
             (case moveTopDisk f t s1 of
                Inr (Some s2) \<Rightarrow> fst s2 # simStates (n - 1) a t f s2
              | _ \<Rightarrow> [])))"
  by pat_completeness auto
termination
  by (relation "measure (\<lambda>(n, f, t, a, s). nat \<lceil>n\<rceil>)") (auto simp: ceiling_pred_less)

declare simStates.simps [simp del]

definition simulationTrace :: "real \<Rightarrow> rods list" where
  "simulationTrace n =
     (let simulationRods = pushDisks n [[], [], []]
      in simulationRods # simStates n 0 2 1 (simulationRods, []))"

text \<open>
  The invariant of the rod state for an \<open>N\<close>-disk puzzle: every stack, read from
  bottom to top, is strictly decreasing, and the disks on the three rods together are
  exactly \<open>1, \<dots>, N\<close>, each once.
\<close>

definition rodsInvariant :: "nat \<Rightarrow> rods \<Rightarrow> bool" where
  "rodsInvariant N rods \<longleftrightarrow>
     (\<forall>stack \<in> set rods. sorted_wrt (>) stack) \<and>
     mset (concat rods) = mset (map real [1..<Suc N])"

section \<open>Replaying a move sequence\<close>

text \<open>
  The replay that the specification describes: each move names a source and a
  destination rod; the top disk of the source rod is taken and put on the destination
  rod. A move fails when a label is not a rod, when the source rod is empty, when the
  disk taken is not the disk the move records, or when the destination rod is not empty
  and its top disk is not larger than the disk put on it.
\<close>

datatype replay_result =
  Replayed rods | UnknownRod | FromEmptyRod | NotTopDisk | LargerOnSmaller

definition rodIndex :: "string \<Rightarrow> nat option" where
  "rodIndex name =
     (if name = ''A'' then Some 0
      else if name = ''B'' then Some 1
      else if name = ''C'' then Some 2
      else None)"

definition replayMove :: "HanoiMove \<Rightarrow> rods \<Rightarrow> replay_result" where
  "replayMove m rods =
     (case rodIndex (from_m m) of
        None \<Rightarrow> UnknownRod
      | Some f \<Rightarrow>
          (case rodIndex (to_m m) of
             None \<Rightarrow> UnknownRod
           | Some t \<Rightarrow>
               if rods ! f = [] then FromEmptyRod
               else
                 let d = last (rods ! f);
                     rods1 = rods[f := butlast (rods ! f)]
                 in if d \<noteq> disk m then NotTopDisk
                    else if rods1 ! t \<noteq> [] \<and> \<not> d < last (rods1 ! t) then LargerOnSmaller
                    else Replayed (rods1[t := rods1 ! t @ [d]])))"

fun replay :: "HanoiMove list \<Rightarrow> rods \<Rightarrow> replay_result" where
  "replay [] rods = Replayed rods"
| "replay (m # ms) rods =
     (case replayMove m rods of
        Replayed rods' \<Rightarrow> replay ms rods'
      | failure \<Rightarrow> failure)"

section \<open>The classic recursion as a list of moves\<close>

text \<open>
  \<open>tower k\<close> is the stack of the disks \<open>k, \<dots>, 1\<close>, bottom first.
  \<open>hanoiMoves k f t a c\<close> is the textbook move list for \<open>k\<close> disks from rod
  \<open>f\<close> to rod \<open>t\<close> through rod \<open>a\<close>, numbered from \<open>c + 1\<close>. \<open>stacked B k r\<close>
  says that \<open>r\<close> is the rod state \<open>B\<close> with the disks \<open>1, \<dots>, k\<close> distributed on
  top of it in decreasing stacks. These are used in the proofs only.
\<close>

primrec tower :: "nat \<Rightarrow> real list" where
  "tower 0 = []"
| "tower (Suc k) = real (Suc k) # tower k"

definition mkMove :: "nat \<Rightarrow> nat \<Rightarrow> nat \<Rightarrow> real \<Rightarrow> HanoiMove" where
  "mkMove len f t d =
     \<lparr> id_m = ''move-'' @ show_nat (len + 1),
       from_m = rodNames ! f,
       to_m = rodNames ! t,
       disk = d,
       description = ''Take disk '' @ show_number d @ '' from rod '' @
                     rodNames ! f @ '' to rod '' @ rodNames ! t \<rparr>"

fun hanoiMoves :: "nat \<Rightarrow> nat \<Rightarrow> nat \<Rightarrow> nat \<Rightarrow> nat \<Rightarrow> HanoiMove list" where
  "hanoiMoves 0 f t a c = []"
| "hanoiMoves (Suc k) f t a c =
     hanoiMoves k f a t c @ [mkMove (c + (2 ^ k - 1)) f t (real (Suc k))] @
     hanoiMoves k a t f (c + 2 ^ k)"

definition stacked :: "rods \<Rightarrow> nat \<Rightarrow> rods \<Rightarrow> bool" where
  "stacked B k r \<longleftrightarrow>
     length r = 3 \<and>
     (\<forall>i<3. \<exists>X. r ! i = B ! i @ X \<and> sorted_wrt (>) X \<and> (\<forall>x\<in>set X. x \<le> real k)) \<and>
     mset (concat r) = mset (concat B) + mset (tower k)"

section \<open>The solver over JavaScript numbers\<close>

text \<open>
  The definitions above take a \<^verbatim>\<open>number\<close> to be a real. A JavaScript number can
  also be NaN or an infinity, and for the disk count and the rod indices of
  \<^verbatim>\<open>solveHanoi\<close> that matters: every comparison with NaN is false, so a NaN passes
  \<^verbatim>\<open>n <= 0\<close>, the index range checks and \<^verbatim>\<open>n === 1\<close>, and
  \<^verbatim>\<open>NaN - 1\<close> is NaN; \<^verbatim>\<open>Infinity - 1\<close> is \<^verbatim>\<open>Infinity\<close>. \<open>jsnum\<close> has
  these values, and \<open>js_lt\<close>, \<open>js_gt\<close>, \<open>js_le\<close>, \<open>js_eq\<close> and \<open>js_dec\<close> are
  \<^verbatim>\<open><\<close>, \<^verbatim>\<open>>\<close>, \<^verbatim>\<open><=\<close>, \<^verbatim>\<open>===\<close> and \<^verbatim>\<open>- 1\<close> on them.

  On a finite number \<open>js_dec\<close> subtracts exactly. Binary floating point does the same
  for every number in \<open>[1, 8]\<close> and for every integer up to \<open>2^53\<close>; for a number
  below 1 it gives a negative number, rounded or not, on which the next call returns at
  line 105. These are the disk counts of \<open>exactCount\<close>. Rounding of other finite
  numbers is not represented, and nothing is stated about them. Disk sizes on the rods
  stay finite numbers.
\<close>

datatype jsnum = Num real | NaN | PosInfinity | NegInfinity

fun js_lt :: "jsnum \<Rightarrow> jsnum \<Rightarrow> bool" where
  "js_lt NaN _ = False"
| "js_lt _ NaN = False"
| "js_lt (Num x) (Num y) = (x < y)"
| "js_lt NegInfinity NegInfinity = False"
| "js_lt NegInfinity _ = True"
| "js_lt _ NegInfinity = False"
| "js_lt PosInfinity _ = False"
| "js_lt _ PosInfinity = True"

definition js_gt :: "jsnum \<Rightarrow> jsnum \<Rightarrow> bool" where
  "js_gt x y = js_lt y x"

definition js_eq :: "jsnum \<Rightarrow> jsnum \<Rightarrow> bool" where
  "js_eq x y \<longleftrightarrow> x \<noteq> NaN \<and> x = y"

definition js_le :: "jsnum \<Rightarrow> jsnum \<Rightarrow> bool" where
  "js_le x y \<longleftrightarrow> js_lt x y \<or> js_eq x y"

fun js_dec :: "jsnum \<Rightarrow> jsnum" where
  "js_dec (Num x) = Num (x - 1)"
| "js_dec NaN = NaN"
| "js_dec PosInfinity = PosInfinity"
| "js_dec NegInfinity = NegInfinity"

text \<open>
  \<^verbatim>\<open>rods[i]\<close> for an index that is NaN or an infinity is \<^verbatim>\<open>undefined\<close>.
  \<open>index_js\<close> is the position of an index for which \<open>rodAt_js\<close> has found a rod;
  such an index is finite.
\<close>

fun rodAt_js :: "rods \<Rightarrow> jsnum \<Rightarrow> real list option" where
  "rodAt_js rods (Num i) = rodAt rods i"
| "rodAt_js rods _ = None"

fun index_js :: "jsnum \<Rightarrow> nat" where
  "index_js (Num i) = nat \<lfloor>i\<rfloor>"
| "index_js _ = 0"

definition moveTopDisk_js :: "jsnum \<Rightarrow> jsnum \<Rightarrow> sim \<Rightarrow> error + sim option" where
  "moveTopDisk_js f t s =
     (case s of (rods, ms) \<Rightarrow>
       (case rodAt_js rods f of
          None \<Rightarrow> Inl TypeError
        | Some src \<Rightarrow>
            if length src = 0 then Inr None
            else
              let d = last src;
                  rods1 = rods[index_js f := butlast src]
              in (case rodAt_js rods1 t of
                    None \<Rightarrow> Inl TypeError
                  | Some dst \<Rightarrow>
                      Inr (Some (rods1[index_js t := dst @ [d]],
                        ms @ [\<lparr> id_m = ''move-'' @ show_nat (length ms + 1),
                                   from_m = rodNames ! index_js f,
                                   to_m = rodNames ! index_js t,
                                   disk = d,
                                   description =
                                     ''Take disk '' @ show_number d @ '' from rod '' @
                                     rodNames ! index_js f @ '' to rod '' @
                                     rodNames ! index_js t \<rparr>])))))"

text \<open>
  \<^verbatim>\<open>solveHanoi\<close>, lines 94 to 149, over these numbers. The result \<open>None\<close> is a
  recursion that does not end; a JavaScript engine aborts it with a
  \<^verbatim>\<open>RangeError\<close> when the call stack is exhausted.
\<close>

partial_function (option) solveHanoi_js ::
  "jsnum \<Rightarrow> jsnum \<Rightarrow> jsnum \<Rightarrow> jsnum \<Rightarrow> sim \<Rightarrow> (error + sim) option" where
  "solveHanoi_js n f t a s =
     (if js_le n (Num 0) then Some (Inr s)
      else if js_lt f (Num 0) \<or> js_gt f (Num 2) \<or> js_lt t (Num 0) \<or> js_gt t (Num 2) \<or>
              js_lt a (Num 0) \<or> js_gt a (Num 2) then Some (Inr s)
      else if js_eq f t \<or> js_eq f a \<or> js_eq t a then Some (Inr s)
      else if js_eq n (Num 1) then
        (case moveTopDisk_js f t s of
           Inl e \<Rightarrow> Some (Inl e)
         | Inr None \<Rightarrow> Some (Inr s)
         | Inr (Some s') \<Rightarrow> Some (Inr s'))
      else
        Option.bind (solveHanoi_js (js_dec n) f a t s)
          (\<lambda>r. case r of
             Inl e \<Rightarrow> Some (Inl e)
           | Inr s1 \<Rightarrow>
               (case moveTopDisk_js f t s1 of
                  Inl e \<Rightarrow> Some (Inl e)
                | Inr None \<Rightarrow> Some (Inr s1)
                | Inr (Some s2) \<Rightarrow> solveHanoi_js (js_dec n) a t f s2)))"



section \<open>Facts about the model\<close>

subsection \<open>The initial loading loop\<close>

lemma tower_eq: "tower k = map real (rev [1..<Suc k])"
  by (induction k) simp_all

lemma pushDisks_tower: "pushDisks (real k) [X, [], []] = [X @ tower k, [], []]"
proof (induction k arbitrary: X)
  case 0
  show ?case by (simp add: pushDisks.simps)
next
  case (Suc k)
  have "pushDisks (real (Suc k)) [X, [], []] = pushDisks (real k) [X @ [real (Suc k)], [], []]"
    by (subst pushDisks.simps) simp
  then show ?case by (simp add: Suc.IH)
qed

lemma length_pushDisks: "length (pushDisks i rods) = length rods"
proof (induction i rods rule: pushDisks.induct)
  case (1 i rods)
  show ?case
  proof (cases "1 \<le> i")
    case True
    with 1 show ?thesis by (subst pushDisks.simps) simp
  next
    case False
    then show ?thesis by (subst pushDisks.simps) simp
  qed
qed

subsection \<open>The solver computes the classic recursion\<close>

text \<open>
  On three rods, with the disks \<open>k, \<dots>, 1\<close> on top of the source rod,
  \<open>solveHanoi\<close> moves exactly these disks to the destination rod and appends exactly
  the moves of the classic recursion. Nothing is assumed about the disks below.
\<close>

lemma rodAt_nat: "i < length rods \<Longrightarrow> rodAt rods (real i) = Some (rods ! i)"
  by (simp add: rodAt_def)

lemma moveTopDisk_nat:
  assumes "f < length rods" "t < length rods" "f \<noteq> t" "rods ! f = F @ [d]"
  shows "moveTopDisk (real f) (real t) (rods, ms) =
           Inr (Some (rods[f := F, t := rods ! t @ [d]], ms @ [mkMove (length ms) f t d]))"
  using assms by (simp add: moveTopDisk_def rodAt_nat mkMove_def)

lemma length_hanoiMoves: "length (hanoiMoves k f t a c) = 2 ^ k - 1"
proof (induction k arbitrary: f t a c)
  case 0
  show ?case by simp
next
  case (Suc k)
  have "(1::nat) \<le> 2 ^ k" by simp
  then show ?case by (simp add: Suc.IH)
qed

lemma three_rods_cases:
  "f < 3 \<Longrightarrow> t < 3 \<Longrightarrow> a < 3 \<Longrightarrow> f \<noteq> t \<Longrightarrow> f \<noteq> a \<Longrightarrow> t \<noteq> a \<Longrightarrow> i < 3 \<Longrightarrow>
     i = f \<or> i = t \<or> i = (a::nat)"
  by arith

lemma rods_eqI:
  assumes "length r = 3" "length r' = 3"
      and "f < 3" "t < 3" "a < 3" "f \<noteq> t" "f \<noteq> a" "t \<noteq> a"
      and "r ! f = r' ! f" "r ! t = r' ! t" "r ! a = r' ! (a::nat)"
  shows "r = (r' :: 'a list)"
proof (rule nth_equalityI)
  show "length r = length r'" using assms by simp
next
  fix i assume "i < length r"
  then have "i = f \<or> i = t \<or> i = a"
    using assms(1,3-8) three_rods_cases by simp
  then show "r ! i = r' ! i" using assms(9-11) by auto
qed

lemma solveHanoi_hanoiMoves:
  assumes "f < 3" "t < 3" "a < 3" "f \<noteq> t" "f \<noteq> a" "t \<noteq> a"
      and "length rods = 3" "rods ! f = F @ tower k"
  shows "solveHanoi (real k) (real f) (real t) (real a) (rods, ms) =
           Inr (rods[f := F, t := rods ! t @ tower k], ms @ hanoiMoves k f t a (length ms))"
  using assms
proof (induction k arbitrary: f t a rods ms F)
  case 0
  then show ?case by (simp add: solveHanoi.simps) (metis list_update_id)
next
  case (Suc k)
  show ?case
  proof (cases "k = 0")
    case True
    with Suc.prems show ?thesis
      by (subst solveHanoi.simps) (simp add: moveTopDisk_nat)
  next
    case False
    let ?rods1 = "rods[f := F @ [real (Suc k)], a := rods ! a @ tower k]"
    let ?ms1 = "ms @ hanoiMoves k f a t (length ms)"
    have p1: "solveHanoi (real k) (real f) (real a) (real t) (rods, ms) = Inr (?rods1, ?ms1)"
      using Suc.prems by (intro Suc.IH) simp_all
    let ?rods2 = "?rods1[f := F, t := ?rods1 ! t @ [real (Suc k)]]"
    let ?ms2 = "?ms1 @ [mkMove (length ?ms1) f t (real (Suc k))]"
    have p2: "moveTopDisk (real f) (real t) (?rods1, ?ms1) = Inr (Some (?rods2, ?ms2))"
      using Suc.prems by (intro moveTopDisk_nat) simp_all
    have p3: "solveHanoi (real k) (real a) (real t) (real f) (?rods2, ?ms2) =
                Inr (?rods2[a := rods ! a, t := ?rods2 ! t @ tower k],
                     ?ms2 @ hanoiMoves k a t f (length ?ms2))"
      using Suc.prems by (intro Suc.IH) simp_all
    have r: "?rods2[a := rods ! a, t := ?rods2 ! t @ tower k] =
               rods[f := F, t := rods ! t @ tower (Suc k)]"
      by (rule rods_eqI[of _ _ f t a]) (use Suc.prems(1-7) in simp_all)
    have "(1::nat) \<le> 2 ^ k" by simp
    then have m: "?ms2 @ hanoiMoves k a t f (length ?ms2) =
               ms @ hanoiMoves (Suc k) f t a (length ms)"
      by (simp add: length_hanoiMoves)
    have "solveHanoi (real (Suc k)) (real f) (real t) (real a) (rods, ms) =
            solveHanoi (real k) (real a) (real t) (real f) (?rods2, ?ms2)"
      using Suc.prems False p1 p2 by (subst solveHanoi.simps) simp
    then show ?thesis using p3 r m by simp
  qed
qed

subsection \<open>Every generated move is well-formed\<close>

lemma rodIndex_rodNames: "i < 3 \<Longrightarrow> rodIndex (rodNames ! i) = Some i"
proof -
  assume "i < 3"
  then have "i = 0 \<or> i = 1 \<or> i = 2" by arith
  then show ?thesis by (auto simp: rodIndex_def rodNames_def)
qed

lemma rodNames_inj: "i < 3 \<Longrightarrow> j < 3 \<Longrightarrow> i \<noteq> j \<Longrightarrow> rodNames ! i \<noteq> rodNames ! j"
  by (metis rodIndex_rodNames option.inject)

lemma rodNames_valid: "i < 3 \<Longrightarrow> rodNames ! i \<in> set validRods"
proof -
  assume "i < 3"
  then have "i = 0 \<or> i = 1 \<or> i = 2" by arith
  then show ?thesis by (auto simp: validRods_def rodNames_def)
qed

lemma isValidMove_mkMove:
  "f < 3 \<Longrightarrow> t < 3 \<Longrightarrow> f \<noteq> t \<Longrightarrow> 0 < d \<Longrightarrow> isValidMove (mkMove c f t d)"
  by (simp add: isValidMove_def mkMove_def rodNames_valid rodNames_inj)

lemma valid_hanoiMoves:
  "f < 3 \<Longrightarrow> t < 3 \<Longrightarrow> a < 3 \<Longrightarrow> f \<noteq> t \<Longrightarrow> f \<noteq> a \<Longrightarrow> t \<noteq> a \<Longrightarrow>
     list_all isValidMove (hanoiMoves k f t a c)"
proof (induction k arbitrary: f t a c)
  case 0
  show ?case by simp
next
  case (Suc k)
  have "0 < real (Suc k)" by simp
  with Suc show ?case by (simp add: isValidMove_mkMove del: of_nat_Suc)
qed

lemma validateSolution_hanoiMoves: "validateSolution (hanoiMoves k 0 2 1 c) (real k)"
proof -
  have "(1::nat) \<le> 2 ^ k" by simp
  then have "real (2 ^ k - 1) = 2 powr real k - 1"
    by (simp add: of_nat_diff powr_realpow)
  then show ?thesis
    by (simp add: validateSolution_def length_hanoiMoves valid_hanoiMoves)
qed

subsection \<open>Replaying the recursion\<close>

lemma replay_append:
  "replay (xs @ ys) rods =
     (case replay xs rods of Replayed rods' \<Rightarrow> replay ys rods' | failure \<Rightarrow> failure)"
  by (induction xs arbitrary: rods) (auto split: replay_result.splits)

lemma replayMove_mkMove:
  assumes "f < 3" "t < 3" "f \<noteq> t" "length rods = 3" "rods ! f = F @ [d]"
      and "\<forall>x\<in>set (rods ! t). d < x"
  shows "replayMove (mkMove c f t d) rods = Replayed (rods[f := F, t := rods ! t @ [d]])"
proof -
  have "rods ! t \<noteq> [] \<Longrightarrow> d < last (rods ! t)"
    using assms(6) last_in_set by blast
  then show ?thesis
    using assms(1-5) by (auto simp: replayMove_def mkMove_def rodIndex_rodNames Let_def)
qed

lemma tower_le: "x \<in> set (tower k) \<Longrightarrow> x \<le> real k"
  by (induction k) auto

lemma sorted_tower: "sorted_wrt (>) (tower k)"
  by (induction k) (auto dest: tower_le)

lemma replay_hanoiMoves:
  assumes "f < 3" "t < 3" "a < 3" "f \<noteq> t" "f \<noteq> a" "t \<noteq> a"
      and "length rods = 3" "rods ! f = F @ tower k"
      and "\<forall>x\<in>set F. real k < x" "\<forall>x\<in>set (rods ! t). real k < x"
          "\<forall>x\<in>set (rods ! a). real k < x"
  shows "replay (hanoiMoves k f t a c) rods = Replayed (rods[f := F, t := rods ! t @ tower k])"
  using assms
proof (induction k arbitrary: f t a rods c F)
  case 0
  then show ?case by simp (metis list_update_id)
next
  case (Suc k)
  let ?d = "real (Suc k)"
  let ?rods1 = "rods[f := F @ [?d], a := rods ! a @ tower k]"
  have p1: "replay (hanoiMoves k f a t c) rods = Replayed ?rods1"
    using Suc.prems by (intro Suc.IH) auto
  let ?rods2 = "?rods1[f := F, t := ?rods1 ! t @ [?d]]"
  have p2: "replayMove (mkMove (c + (2 ^ k - 1)) f t ?d) ?rods1 = Replayed ?rods2"
    using Suc.prems by (intro replayMove_mkMove) auto
  have p3: "replay (hanoiMoves k a t f (c + 2 ^ k)) ?rods2 =
              Replayed (?rods2[a := rods ! a, t := ?rods2 ! t @ tower k])"
    using Suc.prems by (intro Suc.IH) auto
  have r: "?rods2[a := rods ! a, t := ?rods2 ! t @ tower k] =
             rods[f := F, t := rods ! t @ tower (Suc k)]"
    by (rule rods_eqI[of _ _ f t a]) (use Suc.prems(1-7) in simp_all)
  show ?case using p1 p2 p3 r by (simp add: replay_append del: of_nat_Suc)
qed

subsection \<open>The states the simulation passes through\<close>

text \<open>
  \<open>simStates\<close> has one state for each move that \<open>solveHanoi\<close> appends, and its last
  state is the rod state that \<open>solveHanoi\<close> returns. This holds for every call.
\<close>

lemma moveTopDisk_one_move:
  "moveTopDisk f t s = Inr (Some s') \<Longrightarrow> length (snd s') = Suc (length (snd s))"
  by (cases s) (auto simp: moveTopDisk_def Let_def split: option.splits if_splits)

lemma simStates_trace:
  "solveHanoi n f t a s = Inr s' \<Longrightarrow>
     length (snd s') = length (snd s) + length (simStates n f t a s) \<and>
     last (fst s # simStates n f t a s) = fst s'"
proof (induction n f t a s arbitrary: s' rule: solveHanoi.induct)
  case (1 n f t a s)
  show ?case
  proof (cases "n \<le> 0 \<or> (f < 0 \<or> f > 2 \<or> t < 0 \<or> t > 2 \<or> a < 0 \<or> a > 2) \<or> (f = t \<or> f = a \<or> t = a)")
    case True
    have "solveHanoi n f t a s = Inr s"
      using True by (subst solveHanoi.simps) auto
    moreover have "simStates n f t a s = []"
      using True by (subst simStates.simps) auto
    ultimately show ?thesis using "1.prems" by simp
  next
    case guards: False
    show ?thesis
    proof (cases "n = 1")
      case True
      have sh: "solveHanoi n f t a s =
              (case moveTopDisk f t s of Inl e \<Rightarrow> Inl e | Inr None \<Rightarrow> Inr s | Inr (Some x) \<Rightarrow> Inr x)"
        using guards True by (subst solveHanoi.simps) auto
      have st: "simStates n f t a s =
              (case moveTopDisk f t s of Inr (Some x) \<Rightarrow> [fst x] | _ \<Rightarrow> [])"
        using guards True by (subst simStates.simps) auto
      show ?thesis using "1.prems" unfolding sh st
        by (auto split: sum.splits option.splits dest: moveTopDisk_one_move)
    next
      case False
      have sh: "solveHanoi n f t a s =
              (case solveHanoi (n - 1) f a t s of Inl e \<Rightarrow> Inl e
               | Inr s1 \<Rightarrow> (case moveTopDisk f t s1 of Inl e \<Rightarrow> Inl e | Inr None \<Rightarrow> Inr s1
                            | Inr (Some x) \<Rightarrow> solveHanoi (n - 1) a t f x))"
        using guards False by (subst solveHanoi.simps) auto
      have st: "simStates n f t a s = simStates (n - 1) f a t s @
              (case solveHanoi (n - 1) f a t s of Inl e \<Rightarrow> []
               | Inr s1 \<Rightarrow> (case moveTopDisk f t s1 of
                              Inr (Some x) \<Rightarrow> fst x # simStates (n - 1) a t f x | _ \<Rightarrow> []))"
        using guards False by (subst simStates.simps) auto
      from "1.prems" sh obtain s1 where s1: "solveHanoi (n - 1) f a t s = Inr s1"
        by (auto split: sum.splits)
      have ih1: "length (snd s1) = length (snd s) + length (simStates (n - 1) f a t s)"
                "last (fst s # simStates (n - 1) f a t s) = fst s1"
        using "1.IH"(1)[OF _ _ _ False s1] guards by auto
      show ?thesis
      proof (cases "moveTopDisk f t s1")
        case (Inl e)
        then show ?thesis using "1.prems" sh s1 by simp
      next
        case (Inr r)
        show ?thesis
        proof (cases r)
          case None
          then have "s' = s1" "simStates n f t a s = simStates (n - 1) f a t s"
            using "1.prems" sh st s1 Inr by auto
          then show ?thesis using ih1 by simp
        next
          case (Some s2)
          have e3: "solveHanoi (n - 1) a t f s2 = Inr s'"
            using "1.prems" sh s1 Inr Some by simp
          have ih3: "length (snd s') = length (snd s2) + length (simStates (n - 1) a t f s2)"
                    "last (fst s2 # simStates (n - 1) a t f s2) = fst s'"
            using "1.IH"(2)[OF _ _ _ False s1 Inr Some e3] guards by auto
          have l2: "length (snd s2) = Suc (length (snd s1))"
            using Inr Some moveTopDisk_one_move by simp
          have "simStates n f t a s =
                  simStates (n - 1) f a t s @ fst s2 # simStates (n - 1) a t f s2"
            using st s1 Inr Some by simp
          then show ?thesis using ih1 ih3 l2 by simp
        qed
      qed
    qed
  qed
qed

lemma mset_concat_update:
  "i < length B \<Longrightarrow> mset (concat (B[i := B ! i @ ys])) = mset (concat B) + mset ys"
proof (induction B arbitrary: i)
  case Nil
  then show ?case by simp
next
  case (Cons b B)
  then show ?case by (cases i) simp_all
qed

lemma stacked_lift:
  assumes "i < 3" "length B = 3" "stacked (B[i := B ! i @ [real (Suc k)]]) k r"
  shows "stacked B (Suc k) r"
proof -
  let ?B' = "B[i := B ! i @ [real (Suc k)]]"
  have len: "length r = 3" using assms(3) by (simp add: stacked_def)
  have ms: "mset (concat r) = mset (concat B) + mset (tower (Suc k))"
    using assms by (simp add: stacked_def mset_concat_update)
  have "\<exists>X. r ! j = B ! j @ X \<and> sorted_wrt (>) X \<and> (\<forall>x\<in>set X. x \<le> real (Suc k))"
    if "j < 3" for j
  proof -
    from assms(3) that
    have "\<exists>X. r ! j = ?B' ! j @ X \<and> sorted_wrt (>) X \<and> (\<forall>x\<in>set X. x \<le> real k)"
      unfolding stacked_def by blast
    then obtain X where X: "r ! j = ?B' ! j @ X" "sorted_wrt (>) X" "\<forall>x\<in>set X. x \<le> real k"
      by blast
    show ?thesis
    proof (cases "j = i")
      case True
      then have "r ! j = B ! j @ (real (Suc k) # X)" using X(1) assms(1,2) by simp
      moreover have "sorted_wrt (>) (real (Suc k) # X)" using X(2,3) by fastforce
      moreover have "\<forall>x\<in>set (real (Suc k) # X). x \<le> real (Suc k)" using X(3) by fastforce
      ultimately show ?thesis by blast
    next
      case False
      then have "r ! j = B ! j @ X" using X(1) by simp
      moreover have "\<forall>x\<in>set X. x \<le> real (Suc k)" using X(3) by fastforce
      ultimately show ?thesis using X(2) by blast
    qed
  qed
  then show ?thesis using len ms unfolding stacked_def by blast
qed

lemma stacked_after_move:
  assumes "t < 3" "a < 3" "t \<noteq> a" "length B = 3"
  shows "stacked B (Suc k) (B[t := B ! t @ [real (Suc k)], a := B ! a @ tower k])"
proof -
  let ?r = "B[t := B ! t @ [real (Suc k)], a := B ! a @ tower k]"
  have ms: "mset (concat ?r) = mset (concat B) + mset (tower (Suc k))"
  proof -
    let ?B1 = "B[t := B ! t @ [real (Suc k)]]"
    have e: "?r = ?B1[a := ?B1 ! a @ tower k]"
      using assms by simp
    have "mset (concat (?B1[a := ?B1 ! a @ tower k])) = mset (concat ?B1) + mset (tower k)"
      by (rule mset_concat_update) (use assms in simp)
    moreover have "mset (concat ?B1) = mset (concat B) + mset [real (Suc k)]"
      by (rule mset_concat_update) (use assms in simp)
    ultimately show ?thesis unfolding e by simp
  qed
  have "\<exists>X. ?r ! j = B ! j @ X \<and> sorted_wrt (>) X \<and> (\<forall>x\<in>set X. x \<le> real (Suc k))"
    if "j < 3" for j
  proof -
    consider "j = a" | "j = t" | "j \<noteq> a" "j \<noteq> t" by blast
    then show ?thesis
    proof cases
      case 1
      have "?r ! j = B ! j @ tower k" using 1 assms by simp
      moreover have "\<forall>x\<in>set (tower k). x \<le> real (Suc k)" using tower_le by fastforce
      ultimately show ?thesis using sorted_tower by blast
    next
      case 2
      have "?r ! j = B ! j @ [real (Suc k)]" using 2 assms by simp
      then show ?thesis by fastforce
    next
      case 3
      then have "?r ! j = B ! j @ []" by simp
      then show ?thesis by fastforce
    qed
  qed
  then show ?thesis using assms(4) ms unfolding stacked_def by simp
qed

lemma simStates_stacked:
  assumes "f < 3" "t < 3" "a < 3" "f \<noteq> t" "f \<noteq> a" "t \<noteq> a"
      and "length rods = 3" "rods ! f = F @ tower k"
  shows "\<forall>r\<in>set (simStates (real k) (real f) (real t) (real a) (rods, ms)).
           stacked (rods[f := F]) k r"
  using assms
proof (induction k arbitrary: f t a rods ms F)
  case 0
  then show ?case by (simp add: simStates.simps)
next
  case (Suc k)
  let ?d = "real (Suc k)"
  let ?B = "rods[f := F]"
  have lenB: "length ?B = 3" using Suc.prems by simp
  let ?rods1 = "rods[f := F @ [?d], a := rods ! a @ tower k]"
  let ?ms1 = "ms @ hanoiMoves k f a t (length ms)"
  let ?rods2 = "?rods1[f := F, t := ?rods1 ! t @ [?d]]"
  let ?ms2 = "?ms1 @ [mkMove (length ?ms1) f t ?d]"
  have p1: "solveHanoi (real k) (real f) (real a) (real t) (rods, ms) = Inr (?rods1, ?ms1)"
    using Suc.prems by (intro solveHanoi_hanoiMoves) simp_all
  have p2: "moveTopDisk (real f) (real t) (?rods1, ?ms1) = Inr (Some (?rods2, ?ms2))"
    using Suc.prems by (intro moveTopDisk_nat) simp_all
  have r2: "?rods2 = ?B[t := ?B ! t @ [?d], a := ?B ! a @ tower k]"
    by (rule rods_eqI[of _ _ f t a]) (use Suc.prems(1-7) in simp_all)
  have s2: "stacked ?B (Suc k) ?rods2"
    unfolding r2 using Suc.prems lenB by (intro stacked_after_move) simp_all
  show ?case
  proof (cases "k = 0")
    case True
    have "moveTopDisk (real f) (real t) (rods, ms) = Inr (Some (?rods2, ?ms2))"
      using p1 p2 True by (simp add: solveHanoi.simps)
    then have "simStates (real (Suc k)) (real f) (real t) (real a) (rods, ms) = [?rods2]"
      using Suc.prems True by (subst simStates.simps) simp
    then show ?thesis using s2 by simp
  next
    case False
    have st1: "\<forall>r\<in>set (simStates (real k) (real f) (real a) (real t) (rods, ms)).
                 stacked (rods[f := F @ [?d]]) k r"
      using Suc.prems by (intro Suc.IH) simp_all
    have B1: "rods[f := F @ [?d]] = ?B[f := ?B ! f @ [?d]]"
      using Suc.prems by simp
    have l1: "\<forall>r\<in>set (simStates (real k) (real f) (real a) (real t) (rods, ms)).
                 stacked ?B (Suc k) r"
      using st1 unfolding B1 using stacked_lift[OF Suc.prems(1) lenB] by blast
    have st3: "\<forall>r\<in>set (simStates (real k) (real a) (real t) (real f) (?rods2, ?ms2)).
                 stacked (?rods2[a := rods ! a]) k r"
      using Suc.prems by (intro Suc.IH) simp_all
    have B3: "?rods2[a := rods ! a] = ?B[t := ?B ! t @ [?d]]"
      by (rule rods_eqI[of _ _ f t a]) (use Suc.prems(1-7) in simp_all)
    have l3: "\<forall>r\<in>set (simStates (real k) (real a) (real t) (real f) (?rods2, ?ms2)).
                 stacked ?B (Suc k) r"
      using st3 unfolding B3 using stacked_lift[OF Suc.prems(2) lenB] by blast
    have "simStates (real (Suc k)) (real f) (real t) (real a) (rods, ms) =
            simStates (real k) (real f) (real a) (real t) (rods, ms) @
            ?rods2 # simStates (real k) (real a) (real t) (real f) (?rods2, ?ms2)"
      using Suc.prems False p1 p2 by (subst simStates.simps) simp
    then show ?thesis using l1 s2 l3 by (auto simp del: of_nat_Suc)
  qed
qed

lemma simStates_length:
  assumes "f < 3" "t < 3" "a < 3" "f \<noteq> t" "f \<noteq> a" "t \<noteq> a"
      and "length rods = 3" "rods ! f = F @ tower k"
  shows "length (simStates (real k) (real f) (real t) (real a) (rods, ms)) = 2 ^ k - 1"
  using assms
proof (induction k arbitrary: f t a rods ms F)
  case 0
  then show ?case by (simp add: simStates.simps)
next
  case (Suc k)
  let ?d = "real (Suc k)"
  let ?rods1 = "rods[f := F @ [?d], a := rods ! a @ tower k]"
  let ?ms1 = "ms @ hanoiMoves k f a t (length ms)"
  let ?rods2 = "?rods1[f := F, t := ?rods1 ! t @ [?d]]"
  let ?ms2 = "?ms1 @ [mkMove (length ?ms1) f t ?d]"
  have p1: "solveHanoi (real k) (real f) (real a) (real t) (rods, ms) = Inr (?rods1, ?ms1)"
    using Suc.prems by (intro solveHanoi_hanoiMoves) simp_all
  have p2: "moveTopDisk (real f) (real t) (?rods1, ?ms1) = Inr (Some (?rods2, ?ms2))"
    using Suc.prems by (intro moveTopDisk_nat) simp_all
  show ?case
  proof (cases "k = 0")
    case True
    have "moveTopDisk (real f) (real t) (rods, ms) = Inr (Some (?rods2, ?ms2))"
      using p1 p2 True by (simp add: solveHanoi.simps)
    then have "simStates (real (Suc k)) (real f) (real t) (real a) (rods, ms) = [?rods2]"
      using Suc.prems True by (subst simStates.simps) simp
    then show ?thesis using True by simp
  next
    case False
    have l1: "length (simStates (real k) (real f) (real a) (real t) (rods, ms)) = 2 ^ k - 1"
      using Suc.prems by (intro Suc.IH) simp_all
    have l3: "length (simStates (real k) (real a) (real t) (real f) (?rods2, ?ms2)) = 2 ^ k - 1"
      using Suc.prems by (intro Suc.IH) simp_all
    have "simStates (real (Suc k)) (real f) (real t) (real a) (rods, ms) =
            simStates (real k) (real f) (real a) (real t) (rods, ms) @
            ?rods2 # simStates (real k) (real a) (real t) (real f) (?rods2, ?ms2)"
      using Suc.prems False p1 p2 by (subst simStates.simps) simp
    moreover have "(1::nat) \<le> 2 ^ k" by simp
    ultimately show ?thesis using l1 l3 by (simp del: of_nat_Suc)
  qed
qed

lemma stacked_rodsInvariant:
  assumes "stacked [[], [], []] k r"
  shows "rodsInvariant k r"
proof -
  have len: "length r = 3" using assms by (simp add: stacked_def)
  have "sorted_wrt (>) stack" if "stack \<in> set r" for stack
  proof -
    from that obtain i where i: "i < 3" "r ! i = stack"
      using len by (metis in_set_conv_nth)
    then have "i = 0 \<or> i = 1 \<or> i = 2" by arith
    with assms i show ?thesis unfolding stacked_def by auto
  qed
  moreover have "mset (concat r) = mset (map real [1..<Suc k])"
  proof -
    have "mset (tower k) = mset (map real [1..<Suc k])"
      unfolding tower_eq by (simp only: rev_map[symmetric] mset_rev)
    then show ?thesis using assms by (simp add: stacked_def)
  qed
  ultimately show ?thesis by (simp add: rodsInvariant_def)
qed

subsection \<open>No error on three rods\<close>

lemma moveTopDisk_three_rods:
  assumes "length rods = 3" "f \<in> {0, 1, 2}" "t \<in> {0, 1, 2}"
  shows "moveTopDisk f t (rods, ms) = Inr None \<or>
         (\<exists>rods' ms'. moveTopDisk f t (rods, ms) = Inr (Some (rods', ms')) \<and> length rods' = 3)"
  using assms by (auto simp: moveTopDisk_def rodAt_def Let_def)

lemma solveHanoi_three_rods:
  assumes "length (fst s) = 3" "f \<in> {0, 1, 2}" "t \<in> {0, 1, 2}" "a \<in> {0, 1, 2}"
  shows "\<exists>s'. solveHanoi n f t a s = Inr s' \<and> length (fst s') = 3"
  using assms
proof (induction n f t a s rule: solveHanoi.induct)
  case (1 n f t a s)
  show ?case
  proof (cases "n \<le> 0 \<or> (f < 0 \<or> f > 2 \<or> t < 0 \<or> t > 2 \<or> a < 0 \<or> a > 2) \<or> (f = t \<or> f = a \<or> t = a)")
    case True
    then have "solveHanoi n f t a s = Inr s" by (subst solveHanoi.simps) auto
    then show ?thesis using "1.prems" by simp
  next
    case guards: False
    obtain rods ms where s: "s = (rods, ms)" by (cases s)
    show ?thesis
    proof (cases "n = 1")
      case True
      from moveTopDisk_three_rods[of rods f t ms] "1.prems" s
      show ?thesis using guards True by (subst solveHanoi.simps) auto
    next
      case False
      from "1.IH"(1) guards False "1.prems"
      obtain s1 where s1: "solveHanoi (n - 1) f a t s = Inr s1" "length (fst s1) = 3"
        by auto
      obtain rods1 ms1 where s1': "s1 = (rods1, ms1)" by (cases s1)
      from moveTopDisk_three_rods[of rods1 f t ms1] s1 s1' "1.prems"
      consider "moveTopDisk f t s1 = Inr None"
        | rods2 ms2 where "moveTopDisk f t s1 = Inr (Some (rods2, ms2))" "length rods2 = 3"
        by auto
      then show ?thesis
      proof cases
        case 1
        then show ?thesis using guards False s1 by (subst solveHanoi.simps) auto
      next
        case 2
        from "1.IH"(2)[OF _ _ _ False s1(1) 2(1) refl] guards 2(2) "1.prems"
        obtain s3 where "solveHanoi (n - 1) a t f (rods2, ms2) = Inr s3" "length (fst s3) = 3"
          by auto
        then show ?thesis using guards False s1 2 by (subst solveHanoi.simps) auto
      qed
    qed
  qed
qed

lemma generateSolution_returns:
  assumes "1 \<le> x" "x \<le> 8"
  shows "\<exists>sol. generateSolution x = Inr sol"
proof -
  have "length (fst (pushDisks x [[], [], []], [] :: HanoiMove list)) = 3"
    by (simp add: length_pushDisks)
  from solveHanoi_three_rods[OF this, of 0 2 1 x]
  obtain s' where "solveHanoi x 0 2 1 (pushDisks x [[], [], []], []) = Inr s'" by auto
  then show ?thesis using assms by (cases s') (simp add: generateSolution_def)
qed

lemma generateSolution_nat:
  assumes "1 \<le> k" "k \<le> 8"
  shows "generateSolution (real k) =
           Inr \<lparr> numberOfDisks = real k, moves = hanoiMoves k 0 2 1 0,
                 totalMoves = 2 ^ k - 1, source = ''cloud_generated'', isValid = True \<rparr>"
proof -
  have "solveHanoi (real k) (real 0) (real 2) (real 1) ([[] @ tower k, [], []], []) =
          Inr ([[] @ tower k, [], []][0 := [], 2 := [[] @ tower k, [], []] ! 2 @ tower k],
               [] @ hanoiMoves k 0 2 1 (length ([] :: HanoiMove list)))"
    by (rule solveHanoi_hanoiMoves) simp_all
  then have "solveHanoi (real k) 0 2 1 ([tower k, [], []], []) =
               Inr ([[], [], tower k], hanoiMoves k 0 2 1 0)"
    by simp
  moreover have "pushDisks (real k) [[], [], []] = [tower k, [], []]"
    using pushDisks_tower[of k "[]"] by simp
  ultimately show ?thesis
    using assms validateSolution_hanoiMoves[of k 0]
    by (simp add: generateSolution_def length_hanoiMoves)
qed

subsection \<open>Evaluation and arithmetic helpers\<close>

lemmas run_simps =
  generateSolution_def pushDisks.simps solveHanoi.simps simStates.simps moveTopDisk_def
  rodAt_def rodNames_def show_number_def show_abs_def digit_def show_nat.simps
  frac_digits.simps frac_def Let_def

lemma two_powr_int:
  "real (length (ms::'a list)) = 2 powr real_of_int n - 1 \<longleftrightarrow> 0 \<le> n \<and> length ms = 2 ^ nat n - 1"
proof (cases "0 \<le> n")
  case True
  then have "2 powr real_of_int n = (2::real) ^ nat n"
    by (metis of_int_of_nat_eq int_nat_eq powr_realpow zero_less_numeral of_int_of_nat_eq)
  moreover have "(1::nat) \<le> 2 ^ nat n" by simp
  then have "real (2 ^ nat n - 1) = 2 ^ nat n - 1" by (simp add: of_nat_diff)
  ultimately show ?thesis using True by (metis of_nat_eq_iff)
next
  case False
  then have "real_of_int n < 0" by simp
  then have "(2::real) powr real_of_int n < 2 powr 0" by (intro powr_less_mono) simp_all
  then have "2 powr real_of_int n - 1 < (0::real)" by simp
  moreover have "0 \<le> real (length ms)" by simp
  ultimately show ?thesis using False by linarith
qed

lemma two_powr_three_halves: "(2::real) powr (3 / 2) - 1 \<noteq> 1"
proof -
  have "(2::real) powr 1 < 2 powr (3 / 2)" by (intro powr_less_mono) simp_all
  then show ?thesis by simp
qed

subsection \<open>The solver over JavaScript numbers\<close>

text \<open>
  On finite numbers the solver over \<open>jsnum\<close> is the solver over the reals. With a
  disk count NaN or \<^verbatim>\<open>Infinity\<close> and indices that pass the checks, every call makes
  its first recursive call with the same disk count, so no call returns.
\<close>

lemma js_le_Num [simp]: "js_le (Num x) (Num y) \<longleftrightarrow> x \<le> y"
  by (auto simp: js_le_def js_eq_def)

lemma js_eq_Num [simp]: "js_eq (Num x) (Num y) \<longleftrightarrow> x = y"
  by (simp add: js_eq_def)

lemma js_gt_Num [simp]: "js_gt (Num x) (Num y) \<longleftrightarrow> y < x"
  by (simp add: js_gt_def)

lemma moveTopDisk_js_Num: "moveTopDisk_js (Num f) (Num t) s = moveTopDisk f t s"
  by (cases s) (auto simp: moveTopDisk_js_def moveTopDisk_def Let_def split: option.splits)

lemma solveHanoi_js_Num:
  "solveHanoi_js (Num n) (Num f) (Num t) (Num a) s = Some (solveHanoi n f t a s)"
proof (induction n f t a s rule: solveHanoi.induct)
  case (1 n f t a s)
  show ?case
  proof (cases "n \<le> 0 \<or> (f < 0 \<or> f > 2 \<or> t < 0 \<or> t > 2 \<or> a < 0 \<or> a > 2) \<or> (f = t \<or> f = a \<or> t = a)")
    case True
    have "solveHanoi n f t a s = Inr s" using True by (subst solveHanoi.simps) auto
    moreover have "solveHanoi_js (Num n) (Num f) (Num t) (Num a) s = Some (Inr s)"
      using True by (subst solveHanoi_js.simps) auto
    ultimately show ?thesis by simp
  next
    case guards: False
    show ?thesis
    proof (cases "n = 1")
      case True
      have "solveHanoi n f t a s =
              (case moveTopDisk f t s of Inl e \<Rightarrow> Inl e | Inr None \<Rightarrow> Inr s | Inr (Some x) \<Rightarrow> Inr x)"
        using guards True by (subst solveHanoi.simps) auto
      moreover have "solveHanoi_js (Num n) (Num f) (Num t) (Num a) s =
              (case moveTopDisk f t s of Inl e \<Rightarrow> Some (Inl e) | Inr None \<Rightarrow> Some (Inr s)
               | Inr (Some x) \<Rightarrow> Some (Inr x))"
        using guards True by (subst solveHanoi_js.simps) (simp add: moveTopDisk_js_Num)
      ultimately show ?thesis by (auto split: sum.splits option.splits)
    next
      case False
      have ih1: "solveHanoi_js (Num (n - 1)) (Num f) (Num a) (Num t) s =
                   Some (solveHanoi (n - 1) f a t s)"
        using "1.IH"(1) guards False by auto
      have sh: "solveHanoi n f t a s =
              (case solveHanoi (n - 1) f a t s of Inl e \<Rightarrow> Inl e
               | Inr s1 \<Rightarrow> (case moveTopDisk f t s1 of Inl e \<Rightarrow> Inl e | Inr None \<Rightarrow> Inr s1
                            | Inr (Some x) \<Rightarrow> solveHanoi (n - 1) a t f x))"
        using guards False by (subst solveHanoi.simps) auto
      have js: "solveHanoi_js (Num n) (Num f) (Num t) (Num a) s =
              (case solveHanoi (n - 1) f a t s of Inl e \<Rightarrow> Some (Inl e)
               | Inr s1 \<Rightarrow> (case moveTopDisk f t s1 of Inl e \<Rightarrow> Some (Inl e)
                            | Inr None \<Rightarrow> Some (Inr s1)
                            | Inr (Some x) \<Rightarrow> solveHanoi_js (js_dec (Num n)) (Num a) (Num t) (Num f) x))"
        using guards False ih1 by (subst solveHanoi_js.simps) (simp add: moveTopDisk_js_Num)
      show ?thesis
      proof (cases "solveHanoi (n - 1) f a t s")
        case (Inl e)
        then show ?thesis using sh js by simp
      next
        case (Inr s1)
        show ?thesis
        proof (cases "moveTopDisk f t s1")
          case (Inl e)
          then show ?thesis using sh js Inr by simp
        next
          case r: (Inr m)
          show ?thesis
          proof (cases m)
            case None
            then show ?thesis using sh js Inr r by simp
          next
            case (Some s2)
            have "solveHanoi_js (Num (n - 1)) (Num a) (Num t) (Num f) s2 =
                    Some (solveHanoi (n - 1) a t f s2)"
              using "1.IH"(2)[OF _ _ _ False Inr r Some] guards by auto
            then show ?thesis using sh js Inr r Some by simp
          qed
        qed
      qed
    qed
  qed
qed





section \<open>Properties of the solver and the validator\<close>

subsection \<open>C1: Move count\<close>

text \<open>
  C1. For every integer \<open>n\<close> with \<open>1 \<le> n \<le> 8\<close>, \<^verbatim>\<open>generateSolution(n)\<close> returns
  a solution whose move list has exactly \<open>2^n - 1\<close> entries and whose
  \<^verbatim>\<open>totalMoves\<close> field equals the length of that list. An integer in that range is
  a natural number \<open>k\<close>, passed as the number \<open>real k\<close>.
\<close>

theorem generateSolution_move_count:
  fixes k :: nat
  assumes "1 \<le> k" "k \<le> 8"
  shows "\<exists>sol. generateSolution (real k) = Inr sol \<and>
           length (moves sol) = 2 ^ k - 1 \<and> totalMoves sol = length (moves sol)"
  using generateSolution_nat[OF assms] by (simp add: length_hanoiMoves)

theorem generateSolution_move_count_witness:
  "(1::nat) \<le> 3 \<and> (3::nat) \<le> 8 \<and>
   (\<exists>sol. generateSolution (real (3::nat)) = Inr sol \<and>
      length (moves sol) = 2 ^ 3 - 1 \<and> totalMoves sol = length (moves sol))"
  using generateSolution_move_count[of 3] by simp

subsection \<open>C2: Replay of the returned moves\<close>

text \<open>
  C2. For every integer \<open>n\<close> with \<open>1 \<le> n \<le> 8\<close>, replaying the moves returned by
  \<^verbatim>\<open>generateSolution(n)\<close> in order, from rod 0 holding the disks \<open>n, \<dots>, 1\<close>
  bottom to top and rods 1 and 2 empty, never takes a disk from an empty rod, never puts
  a larger disk on a smaller one, and ends with all \<open>n\<close> disks on rod C (index 2) in
  the order \<open>n, \<dots>, 1\<close> bottom to top. The replay reaches \<open>Replayed\<close>, so none of
  its failures occurs at any move.
\<close>

theorem generateSolution_replay:
  fixes k :: nat
  assumes "1 \<le> k" "k \<le> 8"
  shows "\<exists>sol. generateSolution (real k) = Inr sol \<and>
           replay (moves sol) [map real (rev [1..<Suc k]), [], []] =
             Replayed [[], [], map real (rev [1..<Suc k])]"
proof -
  have "replay (hanoiMoves k 0 2 1 0) [tower k, [], []] =
          Replayed ([tower k, [], []][0 := [], 2 := [tower k, [], []] ! 2 @ tower k])"
    by (rule replay_hanoiMoves[where F = "[]"]) simp_all
  then show ?thesis
    using generateSolution_nat[OF assms] by (simp add: tower_eq)
qed

theorem generateSolution_replay_witness:
  "(1::nat) \<le> 3 \<and> (3::nat) \<le> 8 \<and>
   (\<exists>sol. generateSolution (real (3::nat)) = Inr sol \<and>
      replay (moves sol) [map real (rev [1..<Suc 3]), [], []] =
        Replayed [[], [], map real (rev [1..<Suc 3])])"
  using generateSolution_replay[of 3] by simp

subsection \<open>C3: The validity flag\<close>

text \<open>
  C3. For every integer \<open>n\<close> with \<open>1 \<le> n \<le> 8\<close>, the \<^verbatim>\<open>isValid\<close> field of the
  solution returned by \<^verbatim>\<open>generateSolution(n)\<close> is true.
\<close>

theorem generateSolution_isValid:
  fixes k :: nat
  assumes "1 \<le> k" "k \<le> 8"
  shows "\<exists>sol. generateSolution (real k) = Inr sol \<and> isValid sol = True"
  using generateSolution_nat[OF assms] by simp

theorem generateSolution_isValid_witness:
  "(1::nat) \<le> 3 \<and> (3::nat) \<le> 8 \<and>
   (\<exists>sol. generateSolution (real (3::nat)) = Inr sol \<and> isValid sol = True)"
  using generateSolution_isValid[of 3] by simp

subsection \<open>C4: What the validator checks\<close>

text \<open>
  C4. For every move list \<open>ms\<close> and every integer \<open>n\<close>, \<^verbatim>\<open>validateSolution(ms, n)\<close>
  is true if and only if \<open>ms\<close> has exactly \<open>2^n - 1\<close> entries and every move of
  \<open>ms\<close> has a source label among A, B, C, a destination label among A, B, C, a source
  different from its destination, and a disk size above zero. For a negative \<open>n\<close> the
  number \<open>2^n - 1\<close> is not a length, and the validator returns false. The validator
  reads its arguments only: in the embedding it is a function from the move list and the
  number to a truth value, with no state passed in or out.
\<close>

theorem validateSolution_iff:
  "validateSolution ms (real_of_int n) \<longleftrightarrow>
     (0 \<le> n \<and> length ms = 2 ^ nat n - 1) \<and>
     (\<forall>m\<in>set ms. from_m m \<in> {''A'', ''B'', ''C''} \<and> to_m m \<in> {''A'', ''B'', ''C''} \<and>
                  from_m m \<noteq> to_m m \<and> 0 < disk m)"
  unfolding validateSolution_def Let_def two_powr_int
  by (simp add: list_all_iff isValidMove_def validRods_def)

theorem validateSolution_iff_witness:
  "validateSolution
     [\<lparr> id_m = ''move-1'', from_m = ''A'', to_m = ''C'', disk = 1,
         description = ''Take disk 1 from rod A to rod C'' \<rparr>] (real_of_int 1) \<and>
   \<not> validateSolution
     [\<lparr> id_m = ''move-1'', from_m = ''A'', to_m = ''A'', disk = 1,
         description = ''Take disk 1 from rod A to rod A'' \<rparr>] (real_of_int 1) \<and>
   \<not> validateSolution [] (real_of_int 1)"
  using validateSolution_iff[of "[\<lparr> id_m = ''move-1'', from_m = ''A'', to_m = ''C'', disk = 1,
         description = ''Take disk 1 from rod A to rod C'' \<rparr>]" 1]
        validateSolution_iff[of "[\<lparr> id_m = ''move-1'', from_m = ''A'', to_m = ''A'', disk = 1,
         description = ''Take disk 1 from rod A to rod A'' \<rparr>]" 1]
        validateSolution_iff[of "[]" 1]
  by simp

subsection \<open>C5: Rejected disk counts\<close>

text \<open>
  The range check accepts a disk count that is not an integer: \<^verbatim>\<open>generateSolution(1.5)\<close>
  returns a solution. The loop pushes the single disk 1.5; the call for \<open>n = 1.5\<close> has
  \<open>n \<noteq> 1\<close> and recurses for \<open>n = 0.5\<close>, which moves that disk from A to B between
  two calls for \<open>n = -0.5\<close>; back in the outer call rod A is empty and the call returns.
\<close>

theorem generateSolution_accepts_non_integer:
  "generateSolution (3 / 2) =
     Inr \<lparr> numberOfDisks = 3 / 2,
           moves = [\<lparr> id_m = ''move-1'', from_m = ''A'', to_m = ''B'', disk = 3 / 2,
                      description = ''Take disk 1.5 from rod A to rod B'' \<rparr>],
           totalMoves = 1, source = ''cloud_generated'', isValid = False \<rparr>"
  using two_powr_three_halves by (simp add: run_simps validateSolution_def)

text \<open>
  C5, as the code has it. \<^verbatim>\<open>generateSolution(x)\<close> fails with the error
  \<open>InvalidDiskCount\<close> if and only if \<open>x < 1\<close> or \<open>x > 8\<close>, whether \<open>x\<close> is an
  integer or not; in particular \<^verbatim>\<open>generateSolution(0)\<close> and \<^verbatim>\<open>generateSolution(9)\<close>
  fail. The test is the first statement, before the rods are loaded, and the failure
  carries no solution. For every other \<open>x\<close>, integer or not, a solution is returned.
\<close>

theorem generateSolution_fails_iff:
  "(generateSolution x = Inl InvalidDiskCount \<longleftrightarrow> x < 1 \<or> 8 < x) \<and>
   (isl (generateSolution x) \<longleftrightarrow> x < 1 \<or> 8 < x)"
proof (cases "x < 1 \<or> 8 < x")
  case True
  then show ?thesis by (simp add: generateSolution_def)
next
  case False
  then obtain sol where "generateSolution x = Inr sol"
    using generateSolution_returns[of x] by auto
  then show ?thesis using False by simp
qed

theorem generateSolution_fails_iff_witness:
  "generateSolution 0 = Inl InvalidDiskCount \<and> generateSolution 9 = Inl InvalidDiskCount \<and>
   \<not> isl (generateSolution 3) \<and> \<not> isl (generateSolution (3 / 2))"
  using generateSolution_fails_iff[of 0] generateSolution_fails_iff[of 9]
        generateSolution_fails_iff[of 3] generateSolution_fails_iff[of "3 / 2"]
  by simp

subsection \<open>C6: An empty source rod\<close>

text \<open>
  With an empty source rod \<open>solveHanoi\<close> returns normally. In the base case \<open>n = 1\<close>
  nothing changes. For \<open>n = 2\<close> on a single disk, phase 1 moves the disk from A to B,
  phase 2 finds rod A empty, and the call returns the state phase 1 left, with the one
  move recorded: no error is raised.
\<close>

theorem empty_source_returns_silently:
  "solveHanoi 1 0 2 1 ([[], [], []], []) = Inr ([[], [], []], []) \<and>
   solveHanoi 2 0 2 1 ([[1], [], []], []) =
     Inr ([[], [1], []],
          [\<lparr> id_m = ''move-1'', from_m = ''A'', to_m = ''B'', disk = 1,
              description = ''Take disk 1 from rod A to rod B'' \<rparr>])"
  by (simp add: run_simps)

text \<open>
  C6, as the code has it. When the solver must emit a move and the source rod is empty,
  the call returns at once, without a move record and without an error. In the base
  case \<open>n = 1\<close> the rods and the move list are returned unchanged. In the recursive
  case the call returns the state that phase 1 produced, and phase 3 is not run.
\<close>

theorem solveHanoi_empty_source:
  "(n = 1 \<and> rodAt (fst s) f = Some [] \<longrightarrow> solveHanoi n f t a s = Inr s) \<and>
   (0 < n \<and> n \<noteq> 1 \<and> 0 \<le> f \<and> f \<le> 2 \<and> 0 \<le> t \<and> t \<le> 2 \<and> 0 \<le> a \<and> a \<le> 2 \<and>
    f \<noteq> t \<and> f \<noteq> a \<and> t \<noteq> a \<and>
    solveHanoi (n - 1) f a t s = Inr s1 \<and> rodAt (fst s1) f = Some [] \<longrightarrow>
      solveHanoi n f t a s = Inr s1)"
proof (intro conjI impI)
  assume h: "n = 1 \<and> rodAt (fst s) f = Some []"
  then have "moveTopDisk f t s = Inr None"
    by (cases s) (simp add: moveTopDisk_def)
  then show "solveHanoi n f t a s = Inr s"
    using h by (subst solveHanoi.simps) simp
next
  assume h: "0 < n \<and> n \<noteq> 1 \<and> 0 \<le> f \<and> f \<le> 2 \<and> 0 \<le> t \<and> t \<le> 2 \<and> 0 \<le> a \<and> a \<le> 2 \<and>
    f \<noteq> t \<and> f \<noteq> a \<and> t \<noteq> a \<and>
    solveHanoi (n - 1) f a t s = Inr s1 \<and> rodAt (fst s1) f = Some []"
  then have "moveTopDisk f t s1 = Inr None"
    by (cases s1) (simp add: moveTopDisk_def)
  then show "solveHanoi n f t a s = Inr s1"
    using h by (subst solveHanoi.simps) auto
qed

theorem solveHanoi_empty_source_witness:
  "solveHanoi 1 0 2 1 ([[], [2, 1], []], []) = Inr ([[], [2, 1], []], []) \<and>
   solveHanoi 2 0 2 1 ([[4], [], []], []) =
     Inr ([[], [4], []],
          [\<lparr> id_m = ''move-1'', from_m = ''A'', to_m = ''B'', disk = 4,
              description = ''Take disk 4 from rod A to rod B'' \<rparr>])"
proof -
  have a: "rodAt (fst ([[], [2, 1], []], [] :: HanoiMove list)) 0 = Some []"
    by (simp add: rodAt_def)
  have b: "solveHanoi (2 - 1) 0 1 2 ([[4], [], []], []) =
             Inr ([[], [4], []],
                  [\<lparr> id_m = ''move-1'', from_m = ''A'', to_m = ''B'', disk = 4,
                      description = ''Take disk 4 from rod A to rod B'' \<rparr>])"
    by (simp add: run_simps)
  have c: "rodAt (fst ([[], [4], []],
                  [\<lparr> id_m = ''move-1'', from_m = ''A'', to_m = ''B'', disk = 4,
                      description = ''Take disk 4 from rod A to rod B'' \<rparr>])) 0 = Some []"
    by (simp add: rodAt_def)
  show ?thesis
    using solveHanoi_empty_source[where n = 1 and s = "([[], [2, 1], []], [])" and f = 0
                                  and t = 2 and a = 1] a
          solveHanoi_empty_source[where n = 2 and s = "([[4], [], []], [])" and f = 0
                                  and t = 2 and a = 1
                                  and ?s1.0 = "([[], [4], []],
                  [\<lparr> id_m = ''move-1'', from_m = ''A'', to_m = ''B'', disk = 4,
                      description = ''Take disk 4 from rod A to rod B'' \<rparr>])"] b c
    by simp
qed

subsection \<open>C7: Rod invariant during the simulation\<close>

text \<open>
  C7. For every integer \<open>n\<close> with \<open>1 \<le> n \<le> 8\<close>, at every step of the simulation
  inside \<^verbatim>\<open>generateSolution(n)\<close> each of the three stacks is sorted with the smallest
  disk on top, and the disks on the three rods are exactly \<open>1, \<dots>, n\<close>: none is
  created, lost or duplicated. The steps are the loaded initial state and the state after
  each of the \<open>2^n - 1\<close> moves. Since every state has strictly decreasing stacks, each
  push was onto an empty stack or onto a strictly larger disk.
\<close>

theorem simulation_invariant:
  fixes k :: nat
  assumes "1 \<le> k" "k \<le> 8"
  shows "length (simulationTrace (real k)) = 2 ^ k \<and>
         (\<forall>r\<in>set (simulationTrace (real k)). rodsInvariant k r)"
proof -
  have init: "pushDisks (real k) [[], [], []] = [tower k, [], []]"
    using pushDisks_tower[of k "[]"] by simp
  have tr: "simulationTrace (real k) =
              [tower k, [], []] # simStates (real k) (real 0) (real 2) (real 1) ([tower k, [], []], [])"
    by (simp add: simulationTrace_def init Let_def)
  have "length (simStates (real k) (real 0) (real 2) (real 1) ([tower k, [], []], [])) = 2 ^ k - 1"
    by (rule simStates_length[where F = "[]"]) simp_all
  moreover have "(1::nat) \<le> 2 ^ k" by simp
  ultimately have len: "length (simulationTrace (real k)) = 2 ^ k"
    unfolding tr by simp
  have "\<forall>r\<in>set (simStates (real k) (real 0) (real 2) (real 1) ([tower k, [], []], [])).
          stacked ([tower k, [], []][0 := []]) k r"
    by (rule simStates_stacked) simp_all
  then have a: "\<forall>r\<in>set (simStates (real k) (real 0) (real 2) (real 1) ([tower k, [], []], [])).
          rodsInvariant k r"
    using stacked_rodsInvariant by simp
  have "stacked [[], [], []] k [tower k, [], []]"
    unfolding stacked_def using sorted_tower tower_le
    by (auto simp: less_Suc_eq numeral_3_eq_3)
  then have "rodsInvariant k [tower k, [], []]" by (rule stacked_rodsInvariant)
  with a len show ?thesis unfolding tr by simp
qed

theorem simulation_invariant_witness:
  "(1::nat) \<le> 3 \<and> (3::nat) \<le> 8 \<and>
   length (simulationTrace (real (3::nat))) = 2 ^ 3 \<and>
   list_all (rodsInvariant 3) (simulationTrace (real (3::nat)))"
  using simulation_invariant[of 3] by (simp add: list_all_iff)

subsection \<open>C8: Concrete scenarios\<close>

text \<open>
  The seventh and last move of \<^verbatim>\<open>generateSolution(3)\<close> moves disk 1, not disk 3.
\<close>

theorem generateSolution_3_last_move:
  "\<not> isl (generateSolution 3) \<and>
   length (moves (projr (generateSolution 3))) = 7 \<and>
   disk (moves (projr (generateSolution 3)) ! 6) = 1 \<and>
   disk (moves (projr (generateSolution 3)) ! 6) \<noteq> 3"
  by (simp add: run_simps)

text \<open>
  C8, as the code has it. \<^verbatim>\<open>generateSolution(3)\<close> returns exactly 7 moves; its
  fourth move puts disk 3 on rod C and its seventh and last move puts disk 1 on rod C; the
  sequence passes the validator. \<^verbatim>\<open>generateSolution(1)\<close> returns the single move of
  disk 1 from A to C, and \<^verbatim>\<open>generateSolution(2)\<close> returns exactly the three moves
  disk 1 from A to B, disk 2 from A to C, disk 1 from B to C.
\<close>

theorem generateSolution_scenarios:
  "generateSolution 1 =
     Inr \<lparr> numberOfDisks = 1,
           moves = [\<lparr> id_m = ''move-1'', from_m = ''A'', to_m = ''C'', disk = 1,
                      description = ''Take disk 1 from rod A to rod C'' \<rparr>],
           totalMoves = 1, source = ''cloud_generated'', isValid = True \<rparr> \<and>
   generateSolution 2 =
     Inr \<lparr> numberOfDisks = 2,
           moves = [\<lparr> id_m = ''move-1'', from_m = ''A'', to_m = ''B'', disk = 1,
                      description = ''Take disk 1 from rod A to rod B'' \<rparr>,
                    \<lparr> id_m = ''move-2'', from_m = ''A'', to_m = ''C'', disk = 2,
                      description = ''Take disk 2 from rod A to rod C'' \<rparr>,
                    \<lparr> id_m = ''move-3'', from_m = ''B'', to_m = ''C'', disk = 1,
                      description = ''Take disk 1 from rod B to rod C'' \<rparr>],
           totalMoves = 3, source = ''cloud_generated'', isValid = True \<rparr> \<and>
   generateSolution 3 =
     Inr \<lparr> numberOfDisks = 3,
           moves = [\<lparr> id_m = ''move-1'', from_m = ''A'', to_m = ''C'', disk = 1,
                      description = ''Take disk 1 from rod A to rod C'' \<rparr>,
                    \<lparr> id_m = ''move-2'', from_m = ''A'', to_m = ''B'', disk = 2,
                      description = ''Take disk 2 from rod A to rod B'' \<rparr>,
                    \<lparr> id_m = ''move-3'', from_m = ''C'', to_m = ''B'', disk = 1,
                      description = ''Take disk 1 from rod C to rod B'' \<rparr>,
                    \<lparr> id_m = ''move-4'', from_m = ''A'', to_m = ''C'', disk = 3,
                      description = ''Take disk 3 from rod A to rod C'' \<rparr>,
                    \<lparr> id_m = ''move-5'', from_m = ''B'', to_m = ''A'', disk = 1,
                      description = ''Take disk 1 from rod B to rod A'' \<rparr>,
                    \<lparr> id_m = ''move-6'', from_m = ''B'', to_m = ''C'', disk = 2,
                      description = ''Take disk 2 from rod B to rod C'' \<rparr>,
                    \<lparr> id_m = ''move-7'', from_m = ''A'', to_m = ''C'', disk = 1,
                      description = ''Take disk 1 from rod A to rod C'' \<rparr>],
           totalMoves = 7, source = ''cloud_generated'', isValid = True \<rparr> \<and>
   validateSolution (moves (projr (generateSolution 3))) 3"
  by (simp add: run_simps validateSolution_def isValidMove_def validRods_def)

subsection \<open>C9: Defensive index checks\<close>



subsection \<open>C10: Termination\<close>




end
